theory Spec2Isabelle
  imports Complex_Main "HOL-Library.AList"
begin

section \<open>The gRPC client configuration (pkg/util/grpcclient/grpcclient.go)\<close>

subsection \<open>Data\<close>

text \<open>
  Modelled from the spec: \<^verbatim>\<open>backoff.Config\<close> is declared in pkg/util/backoff, outside
  the sources at hand. Section 4.3 of the spec gives its content as
  \<^verbatim>\<open>{min backoff, max backoff, max retries}\<close>; durations are nanosecond counts.
\<close>

record backoff_Config =
  MinBackoff :: int
  MaxBackoff :: int
  MaxRetries :: int

text \<open>
  \<^verbatim>\<open>Config\<close>, field by field. \<^verbatim>\<open>tls.ClientConfig\<close> is declared outside the sources at
  hand and only handed on to \<^verbatim>\<open>GetGRPCDialOptions\<close>, so its type is a parameter.
  \<^verbatim>\<open>RateLimit\<close> is a float64 that the code only compares with zero; it is a real number
  here. \<^verbatim>\<open>ConnectTimeout\<close> is a \<^verbatim>\<open>time.Duration\<close>, a count of nanoseconds.
\<close>

record 'tls Config =
  MaxRecvMsgSize :: int
  MaxSendMsgSize :: int
  GRPCCompression :: string
  RateLimit :: real
  RateLimitBurst :: int
  BackoffOnRatelimits :: bool
  BackoffConfig :: backoff_Config
  TLSEnabled :: bool
  TLS :: 'tls
  SignWriteRequestsEnabled :: bool
  ConnectTimeout :: int

datatype error = Errorf string

datatype grpc_CallOption =
  MaxCallRecvMsgSize int
  | MaxCallSendMsgSize int
  | UseCompressor string

text \<open>
  A unary client interceptor is a function value in Go. The three that \<^verbatim>\<open>DialOption\<close>
  builds itself are kept apart by constructor; every other interceptor (one the caller
  passes in) is \<open>External\<close> with a tag.
\<close>

datatype 'tls grpc_UnaryClientInterceptor =
  NewBackoffRetry backoff_Config
  | NewRateLimiter "'tls Config"
  | UnarySigningClientInterceptor
  | External nat

datatype grpc_StreamClientInterceptor = ExternalStream nat

datatype grpcbackoff_Config = grpcbackoff_DefaultConfig

record grpc_ConnectParams =
  Backoff :: grpcbackoff_Config
  MinConnectTimeout :: int

record keepalive_ClientParameters =
  Time :: int
  Timeout :: int
  PermitWithoutStream :: bool

datatype ('tls, 'o) grpc_DialOption =
  TLSDialOption 'o
  | WithConnectParams grpc_ConnectParams
  | WithDefaultCallOptions "grpc_CallOption list"
  | WithUnaryInterceptor "'tls grpc_UnaryClientInterceptor list"
  | WithStreamInterceptor "grpc_StreamClientInterceptor list"
  | WithKeepaliveParams keepalive_ClientParameters

subsection \<open>Codec names\<close>

text \<open>
  Modelled from the spec: the constants \<^verbatim>\<open>gzip.Name\<close>, \<^verbatim>\<open>snappy.Name\<close>,
  \<^verbatim>\<open>zstd.Name\<close> and \<^verbatim>\<open>snappyblock.Name\<close> are declared outside the sources at hand.
  Their values are the names the spec enumerates (section 4.1), which are also the
  supported values that the help text of the flag \<^verbatim>\<open>.grpc-compression\<close> lists.
\<close>

definition gzip_Name :: string where
  "gzip_Name = ''gzip''"

text \<open>Modelled from the spec: \<^verbatim>\<open>snappy.Name\<close>, as above.\<close>

definition snappy_Name :: string where
  "snappy_Name = ''snappy''"

text \<open>Modelled from the spec: \<^verbatim>\<open>zstd.Name\<close>, as above.\<close>

definition zstd_Name :: string where
  "zstd_Name = ''zstd''"

text \<open>Modelled from the spec: \<^verbatim>\<open>snappyblock.Name\<close>, as above.\<close>

definition snappyblock_Name :: string where
  "snappyblock_Name = ''snappy-block''"

subsection \<open>Operations\<close>

text \<open>\<^verbatim>\<open>Validate\<close>: \<open>None\<close> is Go's \<^verbatim>\<open>nil\<close> error.\<close>

definition Validate :: "'tls Config \<Rightarrow> error option" where
  "Validate cfg =
     (if GRPCCompression cfg = gzip_Name \<or> GRPCCompression cfg = snappy_Name
         \<or> GRPCCompression cfg = zstd_Name \<or> GRPCCompression cfg = snappyblock_Name
         \<or> GRPCCompression cfg = []
      then None
      else Some (Errorf (''unsupported compression type: '' @ GRPCCompression cfg)))"

definition CallOptions :: "'tls Config \<Rightarrow> grpc_CallOption list" where
  "CallOptions cfg =
     (let opts = [];
          opts = opts @ [MaxCallRecvMsgSize (MaxRecvMsgSize cfg)];
          opts = opts @ [MaxCallSendMsgSize (MaxSendMsgSize cfg)];
          opts = (if GRPCCompression cfg \<noteq> [] then opts @ [UseCompressor (GRPCCompression cfg)]
                  else opts)
      in opts)"

text \<open>
  \<^verbatim>\<open>middleware.ChainUnaryClient\<close> and \<^verbatim>\<open>ChainStreamClient\<close> (go-grpc-middleware) compose
  the interceptors they are given into one, run from left to right: the first of the list
  is the outermost wrapper of a call and the last is the innermost, next to the invoker.
  The composed interceptor is represented by that ordered list.
\<close>

definition ChainUnaryClient ::
    "'tls grpc_UnaryClientInterceptor list \<Rightarrow> 'tls grpc_UnaryClientInterceptor list" where
  "ChainUnaryClient interceptors = interceptors"

definition ChainStreamClient ::
    "grpc_StreamClientInterceptor list \<Rightarrow> grpc_StreamClientInterceptor list" where
  "ChainStreamClient interceptors = interceptors"

text \<open>
  \<^verbatim>\<open>Config.DialOption\<close>. \<^verbatim>\<open>cfg.TLS.GetGRPCDialOptions\<close> lives outside the sources at
  hand and is the first parameter; its error is returned as it is.
  \<^verbatim>\<open>ConfigWithHealthCheck.DialOption\<close> appends its health-check interceptors to the two
  lists it is given and calls this function on the longer lists.
\<close>

definition DialOption ::
    "('tls \<Rightarrow> bool \<Rightarrow> 'e + 'o list) \<Rightarrow> 'tls Config \<Rightarrow> 'tls grpc_UnaryClientInterceptor list
      \<Rightarrow> grpc_StreamClientInterceptor list \<Rightarrow> 'e + ('tls, 'o) grpc_DialOption list" where
  "DialOption GetGRPCDialOptions cfg unaryClientInterceptors streamClientInterceptors =
     (case GetGRPCDialOptions (TLS cfg) (TLSEnabled cfg) of
        Inl err \<Rightarrow> Inl err
      | Inr tlsOpts \<Rightarrow>
          (let opts = [] @ map TLSDialOption tlsOpts;
               unaryClientInterceptors =
                 (if BackoffOnRatelimits cfg
                  then [NewBackoffRetry (BackoffConfig cfg)] @ unaryClientInterceptors
                  else unaryClientInterceptors);
               unaryClientInterceptors =
                 (if RateLimit cfg > 0
                  then [NewRateLimiter cfg] @ unaryClientInterceptors
                  else unaryClientInterceptors);
               opts =
                 (if ConnectTimeout cfg > 0
                  then opts @ [WithConnectParams
                         \<lparr>Backoff = grpcbackoff_DefaultConfig,
                          MinConnectTimeout = ConnectTimeout cfg\<rparr>]
                  else opts);
               unaryClientInterceptors =
                 (if SignWriteRequestsEnabled cfg
                  then unaryClientInterceptors @ [UnarySigningClientInterceptor]
                  else unaryClientInterceptors)
           in Inr (opts @
                [WithDefaultCallOptions (CallOptions cfg),
                 WithUnaryInterceptor (ChainUnaryClient unaryClientInterceptors),
                 WithStreamInterceptor (ChainStreamClient streamClientInterceptors),
                 WithKeepaliveParams
                   \<lparr>Time = 20 * 10 ^ 9, Timeout = 10 * 10 ^ 9, PermitWithoutStream = True\<rparr>])))"

text \<open>The unary interceptor chain that a list of dial options installs.\<close>

fun unaryChain :: "('tls, 'o) grpc_DialOption list \<Rightarrow> 'tls grpc_UnaryClientInterceptor list" where
  "unaryChain [] = []"
| "unaryChain (WithUnaryInterceptor us # opts) = us @ unaryChain opts"
| "unaryChain (_ # opts) = unaryChain opts"

fun isRateLimiter :: "'tls grpc_UnaryClientInterceptor \<Rightarrow> bool" where
  "isRateLimiter (NewRateLimiter _) = True"
| "isRateLimiter _ = False"

fun isBackoffRetry :: "'tls grpc_UnaryClientInterceptor \<Rightarrow> bool" where
  "isBackoffRetry (NewBackoffRetry _) = True"
| "isBackoffRetry _ = False"

text \<open>
  The chain that \<^verbatim>\<open>DialOption\<close> installs for a configuration: \<open>None\<close> when it
  returns an error.
\<close>

definition installedUnaryChain ::
    "('tls \<Rightarrow> bool \<Rightarrow> 'e + 'o list) \<Rightarrow> 'tls Config \<Rightarrow> 'tls grpc_UnaryClientInterceptor list
      \<Rightarrow> grpc_StreamClientInterceptor list \<Rightarrow> 'tls grpc_UnaryClientInterceptor list option" where
  "installedUnaryChain GetGRPCDialOptions cfg unaryClientInterceptors streamClientInterceptors =
     (case DialOption GetGRPCDialOptions cfg unaryClientInterceptors streamClientInterceptors of
        Inl err \<Rightarrow> None
      | Inr (opts :: ('tls, 'o) grpc_DialOption list) \<Rightarrow> Some (unaryChain opts))"

text \<open>
  Go's zero value of \<^verbatim>\<open>Config\<close> (\<^verbatim>\<open>var cfg Config\<close>), with a TLS configuration that
  carries nothing, and a \<^verbatim>\<open>GetGRPCDialOptions\<close> that succeeds with no option (an
  insecure connection).
\<close>

definition zeroConfig :: "unit Config" where
  "zeroConfig =
     \<lparr>MaxRecvMsgSize = 0, MaxSendMsgSize = 0, GRPCCompression = [], RateLimit = 0,
      RateLimitBurst = 0, BackoffOnRatelimits = False,
      BackoffConfig = \<lparr>MinBackoff = 0, MaxBackoff = 0, MaxRetries = 0\<rparr>,
      TLSEnabled = False, TLS = (), SignWriteRequestsEnabled = False, ConnectTimeout = 0\<rparr>"

definition insecureDialOptions :: "unit \<Rightarrow> bool \<Rightarrow> error + nat list" where
  "insecureDialOptions tls enabled = Inr []"

section \<open>Merging exemplar query responses (the distributor)\<close>

subsection \<open>Data\<close>

text \<open>
  Modelled from the spec: the types \<^verbatim>\<open>cortexpb.LabelAdapter\<close>, \<^verbatim>\<open>cortexpb.Exemplar\<close>,
  \<^verbatim>\<open>cortexpb.TimeSeries\<close> and \<^verbatim>\<open>ingester_client.ExemplarQueryResponse\<close> are declared
  outside the sources at hand. Their fields are those of section 3 of the spec, under the
  names that the test \<^verbatim>\<open>TestMergeExemplars\<close> uses. A
  \<^verbatim>\<open>LabelAdapter\<close> is a pair of a name and a value. \<^verbatim>\<open>TimestampMs\<close> is an int64 that
  the merge only compares, and \<^verbatim>\<open>Value\<close> a float64 that it only copies: an integer and a
  real number here. The field \<^verbatim>\<open>Labels\<close> of an exemplar is \<open>ExemplarLabels\<close>, since a
  time series has a field of that name too.
\<close>

type_synonym LabelAdapter = "string \<times> string"

type_synonym LabelSet = "LabelAdapter list"

record Exemplar =
  ExemplarLabels :: LabelSet
  TimestampMs :: int
  Value :: real

record TimeSeries =
  Labels :: LabelSet
  Exemplars :: "Exemplar list"

record ExemplarQueryResponse =
  Timeseries :: "TimeSeries list"

subsection \<open>The merge\<close>

text \<open>
  Modelled from the spec: \<^verbatim>\<open>mergeExemplarQueryResponses\<close> is called by the test
  \<^verbatim>\<open>TestMergeExemplars\<close> but defined outside the sources at hand. What follows is the
  algorithm of section 4.6 of the spec, step by step. The fingerprint of a LabelSet, "a
  canonical key derived from a LabelSet used for equality/lookup" that the spec leaves
  opaque, is the parameter \<open>fp\<close>.

  Step 1: an accumulator holds the labels and the exemplars by timestamp; both mappings are
  association lists in insertion order.
\<close>

record accumulator =
  accLabels :: LabelSet
  byTimestamp :: "(int \<times> Exemplar) list"

text \<open>
  Modelled from the spec: step 4 of section 4.6. An exemplar is inserted only if no
  exemplar is already recorded for that exact timestamp.
\<close>

definition insertExemplar :: "(int \<times> Exemplar) list \<Rightarrow> Exemplar \<Rightarrow> (int \<times> Exemplar) list" where
  "insertExemplar m e =
     (case map_of m (TimestampMs e) of
        None \<Rightarrow> m @ [(TimestampMs e, e)]
      | Some _ \<Rightarrow> m)"

text \<open>
  Modelled from the spec: step 3 of section 4.6. A series whose fingerprint is new creates
  an accumulator, placed after those already there (its first-seen position); then its
  exemplars are inserted (step 4). \<open>AList.update\<close> replaces the entry of a key where it
  stands and appends the entry of a new key.
\<close>

definition addSeries ::
    "(LabelSet \<Rightarrow> 'k) \<Rightarrow> ('k \<times> accumulator) list \<Rightarrow> TimeSeries \<Rightarrow> ('k \<times> accumulator) list" where
  "addSeries fp accs ts =
     (let k = fp (Labels ts);
          acc = (case map_of accs k of
                   None \<Rightarrow> \<lparr>accLabels = Labels ts, byTimestamp = []\<rparr>
                 | Some a \<Rightarrow> a);
          acc = acc\<lparr>byTimestamp := foldl insertExemplar (byTimestamp acc) (Exemplars ts)\<rparr>
      in AList.update k acc accs)"

text \<open>
  Modelled from the spec: step 2 of section 4.6. The responses are processed in input
  order, the series of each in the order given.
\<close>

definition accumulate ::
    "(LabelSet \<Rightarrow> 'k) \<Rightarrow> ExemplarQueryResponse list \<Rightarrow> ('k \<times> accumulator) list" where
  "accumulate fp results =
     foldl (\<lambda>accs r. foldl (addSeries fp) accs (Timeseries r)) [] results"

text \<open>
  Modelled from the spec: step 5 of section 4.6. Every accumulator gives a series whose
  exemplars are the values of the timestamp mapping sorted ascending by timestamp.
\<close>

definition emitSeries :: "accumulator \<Rightarrow> TimeSeries" where
  "emitSeries a = \<lparr>Labels = accLabels a, Exemplars = map snd (sort_key fst (byTimestamp a))\<rparr>"

text \<open>
  Modelled from the spec: \<^verbatim>\<open>mergeExemplarQueryResponses\<close> itself, steps 1 to 6 of section
  4.6 together. The series are emitted in first-seen order, the order of the accumulators;
  step 6 asks for nothing more, since no accumulator is dropped. The first-seen order is
  the wording of the spec only: on the calls \<^verbatim>\<open>[rB, rA]\<close> of its last two cases the test
  \<^verbatim>\<open>TestMergeExemplars\<close> requires another order (\<open>merge_on_table_reversed\<close> below).
  The theorems of the claims are therefore stated on the series that the output holds and
  on their exemplars, never on the order in which the output lists the series.
\<close>

definition mergeExemplarQueryResponses ::
    "(LabelSet \<Rightarrow> 'k) \<Rightarrow> ExemplarQueryResponse list \<Rightarrow> ExemplarQueryResponse" where
  "mergeExemplarQueryResponses fp results =
     \<lparr>Timeseries = map (\<lambda>(k, a). emitSeries a) (accumulate fp results)\<rparr>"

subsection \<open>Notions of the properties\<close>

text \<open>All series of a list of responses, in processing order.\<close>

definition allSeries :: "ExemplarQueryResponse list \<Rightarrow> TimeSeries list" where
  "allSeries results = concat (map Timeseries results)"

text \<open>The keys of a list in the order of their first occurrence.\<close>

fun firstSeen :: "'k list \<Rightarrow> 'k list" where
  "firstSeen [] = []"
| "firstSeen (k # ks) = k # filter (\<lambda>j. j \<noteq> k) (firstSeen ks)"

text \<open>
  The exemplar that a list of series holds for the fingerprint \<open>k\<close> at the timestamp
  \<open>t\<close>: the first one in the order of the list, \<open>None\<close> when there is none.
\<close>

definition exemplarAt ::
    "(LabelSet \<Rightarrow> 'k) \<Rightarrow> TimeSeries list \<Rightarrow> 'k \<Rightarrow> int \<Rightarrow> Exemplar option" where
  "exemplarAt fp series k t =
     find (\<lambda>e. TimestampMs e = t)
       (concat (map Exemplars (filter (\<lambda>s. fp (Labels s) = k) series)))"

text \<open>
  The order of the claim on the output series: the fingerprints of the output are those of
  the input in the order in which they are first encountered.
\<close>

definition firstEncounteredOrder ::
    "(LabelSet \<Rightarrow> 'k) \<Rightarrow> ExemplarQueryResponse list \<Rightarrow> TimeSeries list \<Rightarrow> bool" where
  "firstEncounteredOrder fp results out \<longleftrightarrow>
     map (\<lambda>s. fp (Labels s)) out = firstSeen (map (\<lambda>s. fp (Labels s)) (allSeries results))"

subsection \<open>The table of the test TestMergeExemplars\<close>

text \<open>
  The exemplars, label sets and cases of \<^verbatim>\<open>TestMergeExemplars\<close>, in the order of the
  table. \<open>now\<close> is the time at which the test runs, in milliseconds.
\<close>

definition exemplar1 :: "int \<Rightarrow> Exemplar" where
  "exemplar1 now =
     \<lparr>ExemplarLabels = [(''traceID'', ''trace-1'')], TimestampMs = now, Value = 1\<rparr>"

definition exemplar2 :: "int \<Rightarrow> Exemplar" where
  "exemplar2 now =
     \<lparr>ExemplarLabels = [(''traceID'', ''trace-2'')], TimestampMs = now + 1, Value = 2\<rparr>"

definition exemplar3 :: "int \<Rightarrow> Exemplar" where
  "exemplar3 now =
     \<lparr>ExemplarLabels = [(''traceID'', ''trace-3'')], TimestampMs = now + 4, Value = 3\<rparr>"

definition exemplar4 :: "int \<Rightarrow> Exemplar" where
  "exemplar4 now =
     \<lparr>ExemplarLabels = [(''traceID'', ''trace-4'')], TimestampMs = now + 8, Value = 7\<rparr>"

definition exemplar5 :: "int \<Rightarrow> Exemplar" where
  "exemplar5 now =
     \<lparr>ExemplarLabels = [(''traceID'', ''trace-4'')], TimestampMs = now, Value = 7\<rparr>"

definition labels1 :: LabelSet where
  "labels1 = [(''label1'', ''foo1'')]"

definition labels2 :: LabelSet where
  "labels2 = [(''label1'', ''foo2'')]"

record testCase =
  seriesA :: "TimeSeries list"
  seriesB :: "TimeSeries list"
  expected :: "TimeSeries list"
  nonReversible :: bool

definition testCases :: "int \<Rightarrow> testCase list" where
  "testCases now =
     [\<lparr>seriesA = [\<lparr>Labels = labels1, Exemplars = []\<rparr>],
       seriesB = [\<lparr>Labels = labels1, Exemplars = []\<rparr>],
       expected = [\<lparr>Labels = labels1, Exemplars = []\<rparr>],
       nonReversible = False\<rparr>,
      \<lparr>seriesA = [\<lparr>Labels = labels1, Exemplars = [exemplar1 now]\<rparr>],
       seriesB = [\<lparr>Labels = labels1, Exemplars = []\<rparr>],
       expected = [\<lparr>Labels = labels1, Exemplars = [exemplar1 now]\<rparr>],
       nonReversible = False\<rparr>,
      \<lparr>seriesA = [\<lparr>Labels = labels1, Exemplars = [exemplar1 now]\<rparr>],
       seriesB = [\<lparr>Labels = labels1, Exemplars = [exemplar1 now]\<rparr>],
       expected = [\<lparr>Labels = labels1, Exemplars = [exemplar1 now]\<rparr>],
       nonReversible = False\<rparr>,
      \<lparr>seriesA = [\<lparr>Labels = labels1,
                    Exemplars = [exemplar1 now, exemplar2 now, exemplar3 now]\<rparr>],
       seriesB = [\<lparr>Labels = labels1,
                    Exemplars = [exemplar1 now, exemplar3 now, exemplar4 now]\<rparr>],
       expected = [\<lparr>Labels = labels1,
                     Exemplars = [exemplar1 now, exemplar2 now, exemplar3 now, exemplar4 now]\<rparr>],
       nonReversible = False\<rparr>,
      \<lparr>seriesA = [\<lparr>Labels = labels1,
                    Exemplars = [exemplar1 now, exemplar2 now, exemplar3 now]\<rparr>],
       seriesB = [\<lparr>Labels = labels1,
                    Exemplars = [exemplar5 now, exemplar3 now, exemplar4 now]\<rparr>],
       expected = [\<lparr>Labels = labels1,
                     Exemplars = [exemplar1 now, exemplar2 now, exemplar3 now, exemplar4 now]\<rparr>],
       nonReversible = True\<rparr>,
      \<lparr>seriesA = [\<lparr>Labels = labels1, Exemplars = [exemplar1 now, exemplar2 now]\<rparr>],
       seriesB = [\<lparr>Labels = labels2, Exemplars = [exemplar3 now, exemplar4 now]\<rparr>],
       expected = [\<lparr>Labels = labels1, Exemplars = [exemplar1 now, exemplar2 now]\<rparr>,
                   \<lparr>Labels = labels2, Exemplars = [exemplar3 now, exemplar4 now]\<rparr>],
       nonReversible = False\<rparr>,
      \<lparr>seriesA = [\<lparr>Labels = labels1, Exemplars = [exemplar1 now, exemplar2 now]\<rparr>,
                  \<lparr>Labels = labels2, Exemplars = [exemplar3 now]\<rparr>],
       seriesB = [\<lparr>Labels = labels2, Exemplars = [exemplar4 now]\<rparr>],
       expected = [\<lparr>Labels = labels1, Exemplars = [exemplar1 now, exemplar2 now]\<rparr>,
                   \<lparr>Labels = labels2, Exemplars = [exemplar3 now, exemplar4 now]\<rparr>],
       nonReversible = False\<rparr>]"

text \<open>
  The two inputs of a case, \<^verbatim>\<open>rA\<close> and \<^verbatim>\<open>rB\<close> of the test.
\<close>

definition rA :: "testCase \<Rightarrow> ExemplarQueryResponse" where
  "rA c = \<lparr>Timeseries = seriesA c\<rparr>"

definition rB :: "testCase \<Rightarrow> ExemplarQueryResponse" where
  "rB c = \<lparr>Timeseries = seriesB c\<rparr>"

subsection \<open>Invariants of the accumulators\<close>

text \<open>
  A timestamp mapping is well formed when no timestamp has two entries and every entry
  stands under the timestamp of its exemplar.
\<close>

definition keyedByTimestamp :: "(int \<times> Exemplar) list \<Rightarrow> bool" where
  "keyedByTimestamp m \<longleftrightarrow>
     distinct (map fst m) \<and> list_all (\<lambda>(t, e). TimestampMs e = t) m"

text \<open>
  The accumulators are well formed when no fingerprint has two of them, each stands under
  the fingerprint of its labels, and each has a well-formed timestamp mapping.
\<close>

definition wellKeyed :: "(LabelSet \<Rightarrow> 'k) \<Rightarrow> ('k \<times> accumulator) list \<Rightarrow> bool" where
  "wellKeyed fp accs \<longleftrightarrow>
     distinct (map fst accs)
     \<and> list_all (\<lambda>(k, a). fp (accLabels a) = k \<and> keyedByTimestamp (byTimestamp a)) accs"

text \<open>The exemplar recorded for a fingerprint at a timestamp.\<close>

definition lookupTs :: "('k \<times> accumulator) list \<Rightarrow> 'k \<Rightarrow> int \<Rightarrow> Exemplar option" where
  "lookupTs accs k t =
     (case map_of accs k of None \<Rightarrow> None | Some a \<Rightarrow> map_of (byTimestamp a) t)"

text \<open>
  The accumulator that a series gives when it is the only one of its fingerprint and no two
  of its exemplars share a timestamp.
\<close>

definition collected :: "(LabelSet \<Rightarrow> 'k) \<Rightarrow> TimeSeries \<Rightarrow> 'k \<times> accumulator" where
  "collected fp s =
     (fp (Labels s),
      \<lparr>accLabels = Labels s, byTimestamp = map (\<lambda>e. (TimestampMs e, e)) (Exemplars s)\<rparr>)"

section \<open>Properties of the gRPC client configuration\<close>

lemma unaryChain_append: "unaryChain (xs @ ys) = unaryChain xs @ unaryChain ys"
  by (induction xs rule: unaryChain.induct) simp_all

lemma unaryChain_TLS: "unaryChain (map TLSDialOption os) = []"
  by (induction os) simp_all

text \<open>\<^verbatim>\<open>DialOption\<close> returns options exactly when \<^verbatim>\<open>GetGRPCDialOptions\<close> does.\<close>

lemma DialOption_Inr_iff:
  "(\<exists>opts. DialOption G cfg us ss = Inr opts)
     \<longleftrightarrow> (\<exists>tlsOpts. G (TLS cfg) (TLSEnabled cfg) = Inr tlsOpts)"
  by (auto simp: DialOption_def Let_def split: sum.splits)

text \<open>The whole unary chain of a successful \<^verbatim>\<open>DialOption\<close>.\<close>

lemma unaryChain_DialOption:
  assumes "DialOption G cfg us ss = Inr opts"
  shows "unaryChain opts =
      (if 0 < RateLimit cfg then [NewRateLimiter cfg] else [])
      @ (if BackoffOnRatelimits cfg then [NewBackoffRetry (BackoffConfig cfg)] else [])
      @ us
      @ (if SignWriteRequestsEnabled cfg then [UnarySigningClientInterceptor] else [])"
  using assms
  by (auto simp: DialOption_def Let_def ChainUnaryClient_def unaryChain_append unaryChain_TLS
      split: sum.splits)

lemma DialOption_insecure:
  "\<exists>opts. DialOption insecureDialOptions cfg us ss = Inr opts"
  by (simp add: DialOption_Inr_iff insecureDialOptions_def)

lemmas codec_names = gzip_Name_def snappy_Name_def zstd_Name_def snappyblock_Name_def

text \<open>
  C7, as the claim states it, fails: \<^verbatim>\<open>Validate\<close> returns an error for the name
  \<^verbatim>\<open>none\<close>, which the claim's set contains.
\<close>

theorem Validate_none_counterexample:
  "\<not> (Validate (zeroConfig\<lparr>GRPCCompression := ''none''\<rparr>) \<noteq> None \<longleftrightarrow>
        GRPCCompression (zeroConfig\<lparr>GRPCCompression := ''none''\<rparr>)
          \<notin> {''none'', ''gzip'', ''snappy'', ''snappy-block'', ''zstd''})"
  by (simp add: Validate_def codec_names)

text \<open>
  C7 (amended): \<^verbatim>\<open>Validate\<close> returns an error exactly when the configured compression
  codec name is outside the set of the empty string (compression disabled), \<^verbatim>\<open>gzip\<close>,
  \<^verbatim>\<open>snappy\<close>, \<^verbatim>\<open>snappy-block\<close> and \<^verbatim>\<open>zstd\<close>; the error names the rejected codec.
\<close>

theorem Validate_error_iff:
  "(Validate cfg \<noteq> None \<longleftrightarrow>
      GRPCCompression cfg \<notin> {[], ''gzip'', ''snappy'', ''snappy-block'', ''zstd''})
   \<and> (Validate cfg = None
       \<or> Validate cfg = Some (Errorf (''unsupported compression type: '' @ GRPCCompression cfg)))"
  by (simp add: Validate_def codec_names)

text \<open>
  C8, as the claim states it, fails: with \<^verbatim>\<open>BackoffOnRatelimits\<close> enabled and one
  interceptor supplied by the caller, the backoff-retry interceptor is the first of the
  chain and the caller's interceptor the last (innermost) one; with a rate limit as well,
  the rate limiter stands before (outside) the backoff-retry interceptor.
\<close>

theorem DialOption_backoff_counterexample:
  "installedUnaryChain insecureDialOptions (zeroConfig\<lparr>BackoffOnRatelimits := True\<rparr>)
       [External 0] []
     = Some [NewBackoffRetry (BackoffConfig zeroConfig), External 0]
   \<and> last [NewBackoffRetry (BackoffConfig zeroConfig), External 0 :: unit grpc_UnaryClientInterceptor]
       \<noteq> NewBackoffRetry (BackoffConfig zeroConfig)
   \<and> installedUnaryChain insecureDialOptions
       (zeroConfig\<lparr>RateLimit := 10, BackoffOnRatelimits := True\<rparr>) [External 0] []
     = Some [NewRateLimiter (zeroConfig\<lparr>RateLimit := 10, BackoffOnRatelimits := True\<rparr>),
             NewBackoffRetry (BackoffConfig zeroConfig), External 0]"
  by (simp add: installedUnaryChain_def DialOption_def insecureDialOptions_def zeroConfig_def
      ChainUnaryClient_def Let_def)

text \<open>
  C8 (amended): for every \<^verbatim>\<open>Config\<close> for which \<^verbatim>\<open>DialOption\<close> returns options, when
  \<^verbatim>\<open>BackoffOnRatelimits\<close> is enabled the unary chain is the rate limiter (if
  \<^verbatim>\<open>RateLimit > 0\<close>), then the backoff-retry interceptor, then the interceptors of the
  caller, then the signing interceptor (if enabled): the backoff-retry interceptor stands
  in front of the caller's interceptors, directly inside the rate limiter. When
  \<^verbatim>\<open>BackoffOnRatelimits\<close> is disabled, \<^verbatim>\<open>DialOption\<close> adds no backoff-retry interceptor.
\<close>

theorem DialOption_backoff_retry:
  assumes "DialOption G cfg us ss = Inr opts"
  shows "(if BackoffOnRatelimits cfg
          then unaryChain opts =
                 (if 0 < RateLimit cfg then [NewRateLimiter cfg] else [])
                 @ NewBackoffRetry (BackoffConfig cfg) # us
                 @ (if SignWriteRequestsEnabled cfg then [UnarySigningClientInterceptor] else [])
          else filter isBackoffRetry (unaryChain opts) = filter isBackoffRetry us)"
  using unaryChain_DialOption [OF assms] by simp

theorem DialOption_backoff_retry_witness:
  "\<exists>opts. DialOption insecureDialOptions
            (zeroConfig\<lparr>RateLimit := 10, BackoffOnRatelimits := True\<rparr>) [External 0] []
          = Inr opts
     \<and> unaryChain opts =
         [NewRateLimiter (zeroConfig\<lparr>RateLimit := 10, BackoffOnRatelimits := True\<rparr>),
          NewBackoffRetry (BackoffConfig zeroConfig), External 0]"
proof -
  obtain opts where o: "DialOption insecureDialOptions
      (zeroConfig\<lparr>RateLimit := 10, BackoffOnRatelimits := True\<rparr>) [External 0] [] = Inr opts"
    using DialOption_insecure by blast
  from DialOption_backoff_retry [OF o] have "unaryChain opts =
      [NewRateLimiter (zeroConfig\<lparr>RateLimit := 10, BackoffOnRatelimits := True\<rparr>),
       NewBackoffRetry (BackoffConfig zeroConfig), External 0]"
    by (simp add: zeroConfig_def)
  with o show ?thesis by blast
qed

text \<open>
  C9: for every \<^verbatim>\<open>Config\<close> for which \<^verbatim>\<open>DialOption\<close> returns options, when
  \<^verbatim>\<open>RateLimit > 0\<close> the rate limiter of the configuration is the first (outermost)
  interceptor of the unary chain and the only rate limiter that \<^verbatim>\<open>DialOption\<close> adds;
  otherwise (\<^verbatim>\<open>RateLimit\<close> zero included) the chain holds no rate limiter but those the
  caller passed in, so none when the caller passed none.
\<close>

theorem DialOption_rate_limiter:
  assumes "DialOption G cfg us ss = Inr opts"
  shows "(if 0 < RateLimit cfg
          then \<exists>rest. unaryChain opts = NewRateLimiter cfg # rest
                 \<and> filter isRateLimiter rest = filter isRateLimiter us
          else filter isRateLimiter (unaryChain opts) = filter isRateLimiter us)"
  using unaryChain_DialOption [OF assms] by simp

theorem DialOption_rate_limiter_witness:
  "(\<exists>opts. DialOption insecureDialOptions (zeroConfig\<lparr>RateLimit := 10\<rparr>) [External 0] []
          = Inr opts
      \<and> (\<exists>rest. unaryChain opts = NewRateLimiter (zeroConfig\<lparr>RateLimit := 10\<rparr>) # rest
            \<and> filter isRateLimiter rest = []))
   \<and> (\<exists>opts. DialOption insecureDialOptions zeroConfig [External 0] [] = Inr opts
      \<and> filter isRateLimiter (unaryChain opts) = [])"
proof -
  obtain o1 where o1: "DialOption insecureDialOptions (zeroConfig\<lparr>RateLimit := 10\<rparr>)
      [External 0] [] = Inr o1"
    using DialOption_insecure by blast
  obtain o2 where o2: "DialOption insecureDialOptions zeroConfig [External 0] [] = Inr o2"
    using DialOption_insecure by blast
  from DialOption_rate_limiter [OF o1]
  have r1: "\<exists>rest. unaryChain o1 = NewRateLimiter (zeroConfig\<lparr>RateLimit := 10\<rparr>) # rest
      \<and> filter isRateLimiter rest = []"
    by (simp add: zeroConfig_def)
  from DialOption_rate_limiter [OF o2]
  have r2: "filter isRateLimiter (unaryChain o2) = []"
    by (simp add: zeroConfig_def)
  from o1 r1 o2 r2 show ?thesis by blast
qed

text \<open>
  C10: \<^verbatim>\<open>Validate\<close> accepts the empty string as \<^verbatim>\<open>GRPCCompression\<close> and rejects the
  literal name \<^verbatim>\<open>none\<close>; \<^verbatim>\<open>CallOptions\<close> always holds the max-receive and the max-send
  message-size options, in this order, and holds a \<^verbatim>\<open>UseCompressor\<close> option (that of the
  configured name, last) exactly when \<^verbatim>\<open>GRPCCompression\<close> is not empty.
\<close>

theorem CallOptions_compression:
  "Validate (cfg\<lparr>GRPCCompression := []\<rparr>) = None
   \<and> Validate (cfg\<lparr>GRPCCompression := ''none''\<rparr>)
       = Some (Errorf ''unsupported compression type: none'')
   \<and> CallOptions cfg =
       [MaxCallRecvMsgSize (MaxRecvMsgSize cfg), MaxCallSendMsgSize (MaxSendMsgSize cfg)]
       @ (if GRPCCompression cfg = [] then [] else [UseCompressor (GRPCCompression cfg)])
   \<and> ((\<exists>name. UseCompressor name \<in> set (CallOptions cfg)) \<longleftrightarrow> GRPCCompression cfg \<noteq> [])"
  by (auto simp add: Validate_def CallOptions_def codec_names)

section \<open>Properties of the merge\<close>

lemmas table_defs = rA_def rB_def testCases_def labels1_def labels2_def
  exemplar1_def exemplar2_def exemplar3_def exemplar4_def exemplar5_def

lemmas merge_defs = mergeExemplarQueryResponses_def accumulate_def addSeries_def
  insertExemplar_def emitSeries_def Let_def

subsection \<open>The accumulators\<close>

lemma accumulate_allSeries: "accumulate fp results = foldl (addSeries fp) [] (allSeries results)"
proof -
  have "foldl (\<lambda>accs r. foldl (addSeries fp) accs (Timeseries r)) accs results
      = foldl (addSeries fp) accs (concat (map Timeseries results))" for accs
    by (induction results arbitrary: accs) simp_all
  then show ?thesis by (simp add: accumulate_def allSeries_def)
qed

lemma map_of_insertExemplar:
  "map_of (insertExemplar m e) t =
     (case map_of m t of Some x \<Rightarrow> Some x
      | None \<Rightarrow> if TimestampMs e = t then Some e else None)"
  by (auto simp: insertExemplar_def map_add_def split: option.splits)

lemma map_of_foldl_insertExemplar:
  "map_of (foldl insertExemplar m es) t =
     (case map_of m t of Some x \<Rightarrow> Some x | None \<Rightarrow> find (\<lambda>e. TimestampMs e = t) es)"
  by (induction es arbitrary: m) (auto simp: map_of_insertExemplar split: option.splits)

lemma keyed_insertExemplar: "keyedByTimestamp m \<Longrightarrow> keyedByTimestamp (insertExemplar m e)"
  by (auto simp: keyedByTimestamp_def insertExemplar_def map_of_eq_None_iff split: option.splits)

lemma keyed_foldl_insertExemplar:
  "keyedByTimestamp m \<Longrightarrow> keyedByTimestamp (foldl insertExemplar m es)"
  by (induction es arbitrary: m) (simp_all add: keyed_insertExemplar)

lemma list_all_update:
  "list_all (\<lambda>(k, a). P k a) al \<Longrightarrow> P k v \<Longrightarrow> list_all (\<lambda>(k, a). P k a) (AList.update k v al)"
  by (induction al) auto

lemma wellKeyed_lookup:
  "wellKeyed fp accs \<Longrightarrow> map_of accs k = Some a \<Longrightarrow>
     fp (accLabels a) = k \<and> keyedByTimestamp (byTimestamp a)"
  by (auto simp: wellKeyed_def list_all_iff dest!: map_of_SomeD)

lemma wellKeyed_addSeries: "wellKeyed fp accs \<Longrightarrow> wellKeyed fp (addSeries fp accs s)"
proof -
  assume inv: "wellKeyed fp accs"
  define k where "k = fp (Labels s)"
  define acc where "acc = (case map_of accs k of
       None \<Rightarrow> \<lparr>accLabels = Labels s, byTimestamp = []\<rparr> | Some a \<Rightarrow> a)"
  have acc: "fp (accLabels acc) = k \<and> keyedByTimestamp (byTimestamp acc)"
    using wellKeyed_lookup [OF inv, of k]
    by (auto simp: acc_def k_def keyedByTimestamp_def split: option.splits)
  define acc' where
    "acc' = acc\<lparr>byTimestamp := foldl insertExemplar (byTimestamp acc) (Exemplars s)\<rparr>"
  have "fp (accLabels acc') = k \<and> keyedByTimestamp (byTimestamp acc')"
    using acc by (simp add: acc'_def keyed_foldl_insertExemplar)
  then have "wellKeyed fp (AList.update k acc' accs)"
    using inv unfolding wellKeyed_def
    by (simp add: distinct_update list_all_update)
  then show ?thesis
    by (simp add: addSeries_def Let_def k_def acc_def acc'_def)
qed

lemma wellKeyed_foldl: "wellKeyed fp accs \<Longrightarrow> wellKeyed fp (foldl (addSeries fp) accs ss)"
  by (induction ss arbitrary: accs) (simp_all add: wellKeyed_addSeries)

lemma wellKeyed_accumulate: "wellKeyed fp (accumulate fp results)"
proof -
  have "wellKeyed fp []" by (simp add: wellKeyed_def)
  then show ?thesis by (simp add: accumulate_allSeries wellKeyed_foldl)
qed

lemma lookupTs_addSeries:
  "lookupTs (addSeries fp accs s) k t =
     (case lookupTs accs k t of Some e \<Rightarrow> Some e
      | None \<Rightarrow> if fp (Labels s) = k then find (\<lambda>e. TimestampMs e = t) (Exemplars s) else None)"
  by (auto simp: lookupTs_def addSeries_def Let_def update_conv' map_of_foldl_insertExemplar
      split: option.splits)

lemma find_app:
  "find P (xs @ ys) = (case find P xs of None \<Rightarrow> find P ys | Some x \<Rightarrow> Some x)"
  by (induction xs) simp_all

lemma exemplarAt_Cons:
  "exemplarAt fp (s # ss) k t =
     (if fp (Labels s) = k
      then (case find (\<lambda>e. TimestampMs e = t) (Exemplars s) of
              Some e \<Rightarrow> Some e | None \<Rightarrow> exemplarAt fp ss k t)
      else exemplarAt fp ss k t)"
  by (simp add: exemplarAt_def find_app split: option.splits)

lemma exemplarAt_Nil: "exemplarAt fp [] k t = None"
  by (simp add: exemplarAt_def)

lemma lookupTs_foldl:
  "lookupTs (foldl (addSeries fp) accs ss) k t =
     (case lookupTs accs k t of Some e \<Rightarrow> Some e | None \<Rightarrow> exemplarAt fp ss k t)"
  by (induction ss arbitrary: accs)
     (auto simp: lookupTs_addSeries exemplarAt_Cons exemplarAt_Nil split: option.splits)

lemma lookupTs_accumulate: "lookupTs (accumulate fp results) k t = exemplarAt fp (allSeries results) k t"
  by (simp add: accumulate_allSeries lookupTs_foldl) (simp add: lookupTs_def)

subsection \<open>The emitted series\<close>

lemma find_keyed:
  "list_all (\<lambda>(t, e). TimestampMs e = t) xs \<Longrightarrow>
     find (\<lambda>e. TimestampMs e = t) (map snd xs) = map_of xs t"
  by (induction xs) auto

lemma map_keyed:
  "list_all (\<lambda>(t, e). TimestampMs e = t) xs \<Longrightarrow> map TimestampMs (map snd xs) = map fst xs"
  by (induction xs) auto

lemma keyed_sort_key: "keyedByTimestamp m \<Longrightarrow> keyedByTimestamp (sort_key fst m)"
  by (simp add: keyedByTimestamp_def distinct_map list_all_iff)

lemma map_of_sort_key:
  assumes "keyedByTimestamp m"
  shows "map_of (sort_key fst m) = map_of m"
proof -
  have "distinct (map fst m)" "distinct (map fst (sort_key fst m))"
    using assms keyed_sort_key [OF assms] by (simp_all add: keyedByTimestamp_def)
  then show ?thesis
    by (simp add: map_of_inject_set)
qed

lemma find_emitSeries:
  assumes "keyedByTimestamp (byTimestamp a)"
  shows "find (\<lambda>e. TimestampMs e = t) (Exemplars (emitSeries a)) = map_of (byTimestamp a) t"
proof -
  have "list_all (\<lambda>(t, e). TimestampMs e = t) (sort_key fst (byTimestamp a))"
    using keyed_sort_key [OF assms] unfolding keyedByTimestamp_def by (rule conjunct2)
  then have "find (\<lambda>e. TimestampMs e = t) (map snd (sort_key fst (byTimestamp a)))
      = map_of (sort_key fst (byTimestamp a)) t"
    by (rule find_keyed)
  then show ?thesis
    by (simp add: emitSeries_def map_of_sort_key [OF assms])
qed

lemma sorted_emitSeries:
  assumes "keyedByTimestamp (byTimestamp a)"
  shows "sorted_wrt (<) (map TimestampMs (Exemplars (emitSeries a)))"
proof -
  let ?m = "sort_key fst (byTimestamp a)"
  have k: "keyedByTimestamp ?m" by (rule keyed_sort_key [OF assms])
  then have "list_all (\<lambda>(t, e). TimestampMs e = t) ?m"
    unfolding keyedByTimestamp_def by (rule conjunct2)
  then have "map TimestampMs (map snd ?m) = map fst ?m"
    by (rule map_keyed)
  then have eq: "map TimestampMs (Exemplars (emitSeries a)) = map fst ?m"
    by (simp add: emitSeries_def)
  have "sorted (map fst ?m)" by (rule sorted_sort_key)
  moreover have "distinct (map fst ?m)"
    using k unfolding keyedByTimestamp_def by (rule conjunct1)
  ultimately show ?thesis
    unfolding eq strict_sorted_iff by (rule conjI)
qed

lemma wellKeyed_Cons:
  "wellKeyed fp ((k, a) # accs) \<longleftrightarrow>
     k \<notin> fst ` set accs \<and> fp (accLabels a) = k \<and> keyedByTimestamp (byTimestamp a)
     \<and> wellKeyed fp accs"
  by (auto simp: wellKeyed_def)

lemma lookupTs_Cons:
  "lookupTs ((k', a) # accs) k t = (if k' = k then map_of (byTimestamp a) t else lookupTs accs k t)"
  by (simp add: lookupTs_def)

lemma lookupTs_fresh: "k \<notin> fst ` set accs \<Longrightarrow> lookupTs accs k t = None"
proof -
  assume "k \<notin> fst ` set accs"
  then have "map_of accs k = None" by (simp add: map_of_eq_None_iff)
  then show ?thesis by (simp add: lookupTs_def)
qed

lemma exemplarAt_emit:
  "wellKeyed fp accs \<Longrightarrow>
     exemplarAt fp (map (\<lambda>(k, a). emitSeries a) accs) k t = lookupTs accs k t"
proof (induction accs)
  case Nil
  then show ?case by (simp add: exemplarAt_Nil lookupTs_def)
next
  case (Cons p accs)
  obtain k' a where p: "p = (k', a)" by (cases p)
  from Cons.prems have w: "k' \<notin> fst ` set accs" "fp (accLabels a) = k'"
      "keyedByTimestamp (byTimestamp a)" "wellKeyed fp accs"
    by (simp_all add: p wellKeyed_Cons)
  have lab: "Labels (emitSeries a) = accLabels a" by (simp add: emitSeries_def)
  show ?case
    using w Cons.IH [OF w(4)]
    by (auto simp: p exemplarAt_Cons lookupTs_Cons lab find_emitSeries lookupTs_fresh
        split: option.splits)
qed

lemma exemplarAt_merge:
  "exemplarAt fp (Timeseries (mergeExemplarQueryResponses fp results)) k t
     = exemplarAt fp (allSeries results) k t"
  by (simp add: mergeExemplarQueryResponses_def exemplarAt_emit wellKeyed_accumulate
      lookupTs_accumulate)

lemma exemplarAt_append:
  "exemplarAt fp (xs @ ys) k t =
     (case exemplarAt fp xs k t of Some e \<Rightarrow> Some e | None \<Rightarrow> exemplarAt fp ys k t)"
  by (simp add: exemplarAt_def find_app split: option.splits)

subsection \<open>The fingerprints of the output\<close>

lemma keys_addSeries:
  "map fst (addSeries fp accs s) =
     (if fp (Labels s) \<in> set (map fst accs) then map fst accs
      else map fst accs @ [fp (Labels s)])"
  by (simp add: addSeries_def Let_def update_keys)

lemma keys_foldl:
  "map fst (foldl (addSeries fp) accs ss) =
     map fst accs
     @ filter (\<lambda>k. k \<notin> set (map fst accs)) (firstSeen (map (\<lambda>s. fp (Labels s)) ss))"
proof (induction ss arbitrary: accs)
  case Nil
  then show ?case by simp
next
  case (Cons s ss)
  show ?case
    using Cons.IH [of "addSeries fp accs s"]
    by (auto simp: keys_addSeries intro!: filter_cong)
qed

lemma keys_accumulate:
  "map fst (accumulate fp results) = firstSeen (map (\<lambda>s. fp (Labels s)) (allSeries results))"
  by (simp add: accumulate_allSeries keys_foldl)

lemma keys_emit:
  "wellKeyed fp accs \<Longrightarrow>
     map (\<lambda>s. fp (Labels s)) (map (\<lambda>(k, a). emitSeries a) accs) = map fst accs"
  by (induction accs) (auto simp: wellKeyed_def emitSeries_def list_all_iff)

text \<open>The fingerprints of the merged output are those of the input, in first-seen order.\<close>

lemma keys_merge:
  "map (\<lambda>s. fp (Labels s)) (Timeseries (mergeExemplarQueryResponses fp results))
     = firstSeen (map (\<lambda>s. fp (Labels s)) (allSeries results))"
  by (simp add: mergeExemplarQueryResponses_def keys_emit wellKeyed_accumulate keys_accumulate
      del: map_map)

lemma set_firstSeen: "set (firstSeen ks) = set ks"
  by (induction ks) auto

lemma distinct_firstSeen: "distinct (firstSeen ks)"
  by (induction ks) auto

subsection \<open>The labels of the output\<close>

lemma map_of_addSeries:
  "map_of (addSeries fp accs s) k =
     (if fp (Labels s) = k
      then Some ((case map_of accs k of
                    None \<Rightarrow> \<lparr>accLabels = Labels s, byTimestamp = []\<rparr> | Some a \<Rightarrow> a)
                 \<lparr>byTimestamp := foldl insertExemplar
                    (byTimestamp (case map_of accs k of
                       None \<Rightarrow> \<lparr>accLabels = Labels s, byTimestamp = []\<rparr> | Some a \<Rightarrow> a))
                    (Exemplars s)\<rparr>)
      else map_of accs k)"
  by (simp add: addSeries_def Let_def update_conv')

lemma labels_foldl:
  "map_option accLabels (map_of (foldl (addSeries fp) accs ss) k) =
     (case map_of accs k of
        Some a \<Rightarrow> Some (accLabels a)
      | None \<Rightarrow> map_option Labels (find (\<lambda>s. fp (Labels s) = k) ss))"
  by (induction ss arbitrary: accs) (auto simp: map_of_addSeries split: option.splits)

lemma labels_accumulate:
  "map_option accLabels (map_of (accumulate fp results) k) =
     map_option Labels (find (\<lambda>s. fp (Labels s) = k) (allSeries results))"
  by (simp add: accumulate_allSeries labels_foldl)

lemma exemplarAt_no_exemplars:
  assumes "\<forall>s \<in> set ss. fp (Labels s) = k \<longrightarrow> Exemplars s = []"
  shows "exemplarAt fp ss k t = None"
proof -
  have "concat (map Exemplars (filter (\<lambda>s. fp (Labels s) = k) ss)) = []"
    using assms by (induction ss) auto
  then show ?thesis unfolding exemplarAt_def by (simp only: find.simps)
qed

subsection \<open>Merging a response with itself\<close>

lemma update_fresh: "k \<notin> fst ` set al \<Longrightarrow> AList.update k v al = al @ [(k, v)]"
  by (induction al) auto

lemma insertExemplars_fresh:
  "distinct (map TimestampMs es) \<Longrightarrow> TimestampMs ` set es \<inter> fst ` set m = {} \<Longrightarrow>
     foldl insertExemplar m es = m @ map (\<lambda>e. (TimestampMs e, e)) es"
proof (induction es arbitrary: m)
  case Nil
  then show ?case by simp
next
  case (Cons e es)
  from Cons.prems have "map_of m (TimestampMs e) = None"
    by (auto simp: map_of_eq_None_iff)
  then have ins: "insertExemplar m e = m @ [(TimestampMs e, e)]"
    by (simp add: insertExemplar_def)
  from Cons.prems have "TimestampMs ` set es \<inter> fst ` set (m @ [(TimestampMs e, e)]) = {}"
    by auto
  with Cons.prems Cons.IH [of "m @ [(TimestampMs e, e)]"] ins show ?case
    by simp
qed

lemma insertExemplars_present:
  "\<forall>e \<in> set es. map_of m (TimestampMs e) \<noteq> None \<Longrightarrow> foldl insertExemplar m es = m"
  by (induction es) (auto simp: insertExemplar_def)

lemma first_pass:
  assumes "distinct (map (\<lambda>s. fp (Labels s)) ss)"
    and "(\<lambda>s. fp (Labels s)) ` set ss \<inter> fst ` set accs = {}"
    and "\<forall>s \<in> set ss. distinct (map TimestampMs (Exemplars s))"
  shows "foldl (addSeries fp) accs ss = accs @ map (collected fp) ss"
  using assms
proof (induction ss arbitrary: accs)
  case Nil
  then show ?case by simp
next
  case (Cons s ss)
  from Cons.prems have fresh: "fp (Labels s) \<notin> fst ` set accs" by auto
  then have none: "map_of accs (fp (Labels s)) = None" by (simp add: map_of_eq_None_iff)
  from Cons.prems have "distinct (map TimestampMs (Exemplars s))" by simp
  then have "foldl insertExemplar [] (Exemplars s) = map (\<lambda>e. (TimestampMs e, e)) (Exemplars s)"
    using insertExemplars_fresh [of "Exemplars s" "[]"] by simp
  then have step: "addSeries fp accs s = accs @ [collected fp s]"
    using none fresh by (simp add: addSeries_def Let_def collected_def update_fresh)
  from Cons.prems
  have "(\<lambda>s. fp (Labels s)) ` set ss \<inter> fst ` set (accs @ [collected fp s]) = {}"
    by (auto simp: collected_def)
  with Cons.prems Cons.IH [of "accs @ [collected fp s]"] step show ?case
    by simp
qed

lemma second_pass:
  assumes "\<forall>s \<in> set ss. map_of accs (fp (Labels s)) = Some (snd (collected fp s))"
  shows "foldl (addSeries fp) accs ss = accs"
  using assms
proof (induction ss)
  case Nil
  then show ?case by simp
next
  case (Cons s ss)
  then have look: "map_of accs (fp (Labels s)) = Some (snd (collected fp s))" by simp
  have "foldl insertExemplar (map (\<lambda>e. (TimestampMs e, e)) (Exemplars s)) (Exemplars s)
      = map (\<lambda>e. (TimestampMs e, e)) (Exemplars s)"
    by (rule insertExemplars_present) (auto simp: map_of_eq_None_iff image_iff)
  then have "addSeries fp accs s = AList.update (fp (Labels s)) (snd (collected fp s)) accs"
    using look by (simp add: addSeries_def Let_def collected_def)
  also have "\<dots> = accs" using look by (rule update_triv)
  finally show ?case using Cons by simp
qed

lemma emit_collected:
  assumes "sorted_wrt (<) (map TimestampMs (Exemplars s))"
  shows "emitSeries (snd (collected fp s)) = s"
proof -
  let ?m = "map (\<lambda>e. (TimestampMs e, e)) (Exemplars s)"
  from assms have "sorted (map TimestampMs (Exemplars s))" by (simp add: strict_sorted_iff)
  then have "sorted (map fst ?m)" by (simp add: comp_def)
  then have "sort_key fst ?m = ?m" by (rule sort_key_id_if_sorted)
  then show ?thesis by (simp add: emitSeries_def collected_def comp_def)
qed

subsection \<open>The algorithm of the spec on the table of the test\<close>

text \<open>
  On the call \<^verbatim>\<open>[rA, rB]\<close> the algorithm gives the expected output of every case of the
  table. On the call \<^verbatim>\<open>[rB, rA]\<close> it gives the expected output of the first four cases
  only: the fifth is the case marked \<^verbatim>\<open>nonReversible\<close>, which the test does not check in
  that order, but the last two are checked, and there the algorithm emits the series of
  \<open>labels2\<close> first.
\<close>

lemma merge_on_table:
  "map (\<lambda>c. Timeseries (mergeExemplarQueryResponses (\<lambda>ls. ls) [rA c, rB c]) = expected c)
       (testCases now)
     = [True, True, True, True, True, True, True]"
  by (simp add: merge_defs table_defs)

lemma merge_on_table_reversed:
  "map (\<lambda>c. Timeseries (mergeExemplarQueryResponses (\<lambda>ls. ls) [rB c, rA c]) = expected c)
       (testCases now)
     = [True, True, True, True, False, False, False]"
  by (simp add: merge_defs table_defs)

subsection \<open>The claims\<close>



text \<open>
  The exemplar that the merge holds for a fingerprint at a timestamp is the same in both
  input orders when no two exemplars of \<open>A\<close> and \<open>B\<close> under one fingerprint share a
  timestamp; the order of the output series is another matter, see \<open>merge_order_of_test\<close>
  below.
\<close>

lemma find_SomeD: "find P xs = Some x \<Longrightarrow> x \<in> set xs \<and> P x"
  by (induction xs) (auto split: if_splits)

lemma exemplarAt_tagged:
  "exemplarAt fp ss k t = Some e \<Longrightarrow>
     (k, t) \<in> set (concat (map (\<lambda>s. map (\<lambda>e. (fp (Labels s), TimestampMs e)) (Exemplars s)) ss))"
proof (induction ss)
  case Nil
  then show ?case by (simp add: exemplarAt_Nil)
next
  case (Cons s ss)
  show ?case
  proof (cases "fp (Labels s) = k \<and> find (\<lambda>e. TimestampMs e = t) (Exemplars s) \<noteq> None")
    case True
    then obtain x where "find (\<lambda>e. TimestampMs e = t) (Exemplars s) = Some x" by auto
    from find_SomeD [OF this] True show ?thesis by force
  next
    case False
    with Cons.prems have "exemplarAt fp ss k t = Some e"
      by (auto simp: exemplarAt_Cons split: if_splits option.splits)
    from Cons.IH [OF this] show ?thesis by simp
  qed
qed

lemma merge_swap_exemplarAt:
  assumes "distinct (concat (map (\<lambda>s. map (\<lambda>e. (fp (Labels s), TimestampMs e)) (Exemplars s))
      (Timeseries A @ Timeseries B)))"
  shows "exemplarAt fp (Timeseries (mergeExemplarQueryResponses fp [A, B])) k t
       = exemplarAt fp (Timeseries (mergeExemplarQueryResponses fp [B, A])) k t"
proof -
  have "exemplarAt fp (Timeseries A) k t = None \<or> exemplarAt fp (Timeseries B) k t = None"
  proof (rule ccontr)
    assume "\<not> ?thesis"
    then obtain a b where "exemplarAt fp (Timeseries A) k t = Some a"
        "exemplarAt fp (Timeseries B) k t = Some b"
      by auto
    from this [THEN exemplarAt_tagged] assms show False by auto
  qed
  then show ?thesis
    by (auto simp: exemplarAt_merge allSeries_def exemplarAt_append split: option.splits)
qed

text \<open>
  C3: within every series of the merged output, the timestamps of the exemplars are
  strictly increasing: sorted, and no timestamp twice.
\<close>

theorem merge_sorted:
  "\<forall>s \<in> set (Timeseries (mergeExemplarQueryResponses fp results)).
     sorted_wrt (<) (map TimestampMs (Exemplars s))"
proof
  fix s assume "s \<in> set (Timeseries (mergeExemplarQueryResponses fp results))"
  then obtain k a where "(k, a) \<in> set (accumulate fp results)" and s: "s = emitSeries a"
    by (auto simp: mergeExemplarQueryResponses_def)
  with wellKeyed_accumulate [of fp results] have "keyedByTimestamp (byTimestamp a)"
    by (auto simp: wellKeyed_def list_all_iff)
  then show "sorted_wrt (<) (map TimestampMs (Exemplars s))"
    unfolding s by (rule sorted_emitSeries)
qed

theorem merge_sorted_witness:
  "\<lparr>Labels = labels1, Exemplars = [exemplar1 0, exemplar2 0, exemplar3 0, exemplar4 0]\<rparr>
     \<in> set (Timeseries (mergeExemplarQueryResponses (\<lambda>ls. ls)
          [rA (testCases 0 ! 3), rB (testCases 0 ! 3)]))
   \<and> sorted_wrt (<) (map TimestampMs [exemplar1 0, exemplar2 0, exemplar3 0, exemplar4 0])"
proof -
  have m: "\<lparr>Labels = labels1, Exemplars = [exemplar1 0, exemplar2 0, exemplar3 0, exemplar4 0]\<rparr>
     \<in> set (Timeseries (mergeExemplarQueryResponses (\<lambda>ls. ls)
          [rA (testCases 0 ! 3), rB (testCases 0 ! 3)]))"
    by (simp add: merge_defs table_defs)
  from merge_sorted [of "\<lambda>ls. ls" "[rA (testCases 0 ! 3), rB (testCases 0 ! 3)]"] m
  have "sorted_wrt (<) (map TimestampMs (Exemplars
      \<lparr>Labels = labels1, Exemplars = [exemplar1 0, exemplar2 0, exemplar3 0, exemplar4 0]\<rparr>))"
    by blast
  with m show ?thesis by simp
qed

text \<open>
  Whatever the merge returns holds no fingerprint twice and has strictly increasing
  timestamps in every series. So a response that the merge of \<open>[R, R]\<close> returns
  unchanged has these two properties itself; the order of the series plays no part in
  this.
\<close>

lemma merge_idempotent_only_if:
  assumes "mergeExemplarQueryResponses fp [R, R] = R"
  shows "distinct (map (\<lambda>s. fp (Labels s)) (Timeseries R))
       \<and> list_all (\<lambda>s. sorted_wrt (<) (map TimestampMs (Exemplars s))) (Timeseries R)"
proof -
  let ?out = "Timeseries (mergeExemplarQueryResponses fp [R, R])"
  have "distinct (map (\<lambda>s. fp (Labels s)) ?out)"
    by (simp only: keys_merge distinct_firstSeen)
  moreover have "list_all (\<lambda>s. sorted_wrt (<) (map TimestampMs (Exemplars s))) ?out"
    unfolding list_all_iff
  proof
    fix s assume "s \<in> set ?out"
    then obtain k a where "(k, a) \<in> set (accumulate fp [R, R])" and s: "s = emitSeries a"
      by (auto simp: mergeExemplarQueryResponses_def)
    with wellKeyed_accumulate [of fp "[R, R]"] have "keyedByTimestamp (byTimestamp a)"
      by (auto simp: wellKeyed_def list_all_iff)
    then show "sorted_wrt (<) (map TimestampMs (Exemplars s))"
      unfolding s by (rule sorted_emitSeries)
  qed
  ultimately show ?thesis by (simp only: assms simp_thms)
qed

text \<open>
  C4, as the claim states it, fails on three responses, each with a single LabelSet, so
  that the order of the output series plays no part: a response that holds one LabelSet
  twice comes back with one series, a response whose exemplars are not in timestamp order
  comes back sorted, and a response with two exemplars at one timestamp comes back with
  the first of the two.
\<close>

theorem merge_idempotent_counterexample:
  "mergeExemplarQueryResponses (\<lambda>ls. ls)
       [\<lparr>Timeseries = [\<lparr>Labels = labels1, Exemplars = []\<rparr>, \<lparr>Labels = labels1, Exemplars = []\<rparr>]\<rparr>,
        \<lparr>Timeseries = [\<lparr>Labels = labels1, Exemplars = []\<rparr>, \<lparr>Labels = labels1, Exemplars = []\<rparr>]\<rparr>]
     = \<lparr>Timeseries = [\<lparr>Labels = labels1, Exemplars = []\<rparr>]\<rparr>
   \<and> mergeExemplarQueryResponses (\<lambda>ls. ls)
       [\<lparr>Timeseries = [\<lparr>Labels = labels1, Exemplars = [exemplar2 0, exemplar1 0]\<rparr>]\<rparr>,
        \<lparr>Timeseries = [\<lparr>Labels = labels1, Exemplars = [exemplar2 0, exemplar1 0]\<rparr>]\<rparr>]
     = \<lparr>Timeseries = [\<lparr>Labels = labels1, Exemplars = [exemplar1 0, exemplar2 0]\<rparr>]\<rparr>
   \<and> mergeExemplarQueryResponses (\<lambda>ls. ls)
       [\<lparr>Timeseries = [\<lparr>Labels = labels1, Exemplars = [exemplar1 0, exemplar5 0]\<rparr>]\<rparr>,
        \<lparr>Timeseries = [\<lparr>Labels = labels1, Exemplars = [exemplar1 0, exemplar5 0]\<rparr>]\<rparr>]
     = \<lparr>Timeseries = [\<lparr>Labels = labels1, Exemplars = [exemplar1 0]\<rparr>]\<rparr>
   \<and> [\<lparr>Labels = labels1, Exemplars = []\<rparr>, \<lparr>Labels = labels1, Exemplars = []\<rparr>]
       \<noteq> [\<lparr>Labels = labels1, Exemplars = []\<rparr>]
   \<and> [exemplar2 0, exemplar1 0] \<noteq> [exemplar1 0, exemplar2 0]
   \<and> [exemplar1 0, exemplar5 0] \<noteq> [exemplar1 0]
   \<and> \<not> distinct (map Labels
           [\<lparr>Labels = labels1, Exemplars = []\<rparr>, \<lparr>Labels = labels1, Exemplars = []\<rparr>])
   \<and> \<not> sorted_wrt (<) (map TimestampMs [exemplar2 0, exemplar1 0])
   \<and> \<not> sorted_wrt (<) (map TimestampMs [exemplar1 0, exemplar5 0])"
  by (simp add: merge_defs table_defs)

text \<open>
  C4 (amended): for every response \<open>R\<close> that holds no LabelSet twice and whose series
  have their exemplars in strictly increasing timestamp order, merging \<open>[R, R]\<close> yields
  exactly the series of \<open>R\<close>, each unchanged and each once. The order in which the
  output lists them is not stated.
\<close>

theorem merge_idempotent:
  assumes "distinct (map (\<lambda>s. fp (Labels s)) (Timeseries R))"
    and "\<forall>s \<in> set (Timeseries R). sorted_wrt (<) (map TimestampMs (Exemplars s))"
  shows "set (Timeseries (mergeExemplarQueryResponses fp [R, R])) = set (Timeseries R)
       \<and> length (Timeseries (mergeExemplarQueryResponses fp [R, R])) = length (Timeseries R)"
proof -
  let ?ss = "Timeseries R"
  from assms(2) have d: "\<forall>s \<in> set ?ss. distinct (map TimestampMs (Exemplars s))"
    by (simp add: strict_sorted_iff)
  have one: "foldl (addSeries fp) [] ?ss = map (collected fp) ?ss"
    using first_pass [OF assms(1) _ d, of "[]"] by simp
  have keys: "map fst (map (collected fp) ?ss) = map (\<lambda>s. fp (Labels s)) ?ss"
    by (simp add: collected_def comp_def)
  have "\<forall>s \<in> set ?ss. map_of (map (collected fp) ?ss) (fp (Labels s)) = Some (snd (collected fp s))"
  proof
    fix s assume "s \<in> set ?ss"
    then have "(fp (Labels s), snd (collected fp s)) \<in> set (map (collected fp) ?ss)"
      by (force simp: collected_def)
    moreover have "distinct (map fst (map (collected fp) ?ss))"
      using assms(1) by (simp only: keys)
    ultimately show "map_of (map (collected fp) ?ss) (fp (Labels s)) = Some (snd (collected fp s))"
      by (simp only: map_of_is_SomeI)
  qed
  then have two: "foldl (addSeries fp) (map (collected fp) ?ss) ?ss = map (collected fp) ?ss"
    by (rule second_pass)
  have acc: "accumulate fp [R, R] = map (collected fp) ?ss"
    by (simp add: accumulate_def one two)
  have "emitSeries (snd (collected fp s)) = s" if "s \<in> set ?ss" for s
    using assms(2) that by (simp add: emit_collected)
  then have "(\<lambda>s. emitSeries (snd (collected fp s))) ` set ?ss = set ?ss"
    by (auto simp: image_iff)
  then show ?thesis
    by (simp add: mergeExemplarQueryResponses_def acc case_prod_beta image_image)
qed

theorem merge_idempotent_witness:
  "distinct (map (\<lambda>s. (\<lambda>ls. ls) (Labels s))
       [\<lparr>Labels = labels2, Exemplars = [exemplar3 0, exemplar4 0]\<rparr>,
        \<lparr>Labels = labels1, Exemplars = [exemplar1 0, exemplar2 0]\<rparr>])
   \<and> sorted_wrt (<) (map TimestampMs [exemplar3 0, exemplar4 0])
   \<and> sorted_wrt (<) (map TimestampMs [exemplar1 0, exemplar2 0])
   \<and> set (Timeseries (mergeExemplarQueryResponses (\<lambda>ls. ls)
        [\<lparr>Timeseries = [\<lparr>Labels = labels2, Exemplars = [exemplar3 0, exemplar4 0]\<rparr>,
                         \<lparr>Labels = labels1, Exemplars = [exemplar1 0, exemplar2 0]\<rparr>]\<rparr>,
         \<lparr>Timeseries = [\<lparr>Labels = labels2, Exemplars = [exemplar3 0, exemplar4 0]\<rparr>,
                         \<lparr>Labels = labels1, Exemplars = [exemplar1 0, exemplar2 0]\<rparr>]\<rparr>]))
       = {\<lparr>Labels = labels2, Exemplars = [exemplar3 0, exemplar4 0]\<rparr>,
          \<lparr>Labels = labels1, Exemplars = [exemplar1 0, exemplar2 0]\<rparr>}
   \<and> length (Timeseries (mergeExemplarQueryResponses (\<lambda>ls. ls)
        [\<lparr>Timeseries = [\<lparr>Labels = labels2, Exemplars = [exemplar3 0, exemplar4 0]\<rparr>,
                         \<lparr>Labels = labels1, Exemplars = [exemplar1 0, exemplar2 0]\<rparr>]\<rparr>,
         \<lparr>Timeseries = [\<lparr>Labels = labels2, Exemplars = [exemplar3 0, exemplar4 0]\<rparr>,
                         \<lparr>Labels = labels1, Exemplars = [exemplar1 0, exemplar2 0]\<rparr>]\<rparr>]))
       = 2"
proof -
  let ?R = "\<lparr>Timeseries = [\<lparr>Labels = labels2, Exemplars = [exemplar3 0, exemplar4 0]\<rparr>,
                          \<lparr>Labels = labels1, Exemplars = [exemplar1 0, exemplar2 0]\<rparr>]\<rparr>"
  have d: "distinct (map (\<lambda>s. (\<lambda>ls. ls) (Labels s)) (Timeseries ?R))"
    by (simp add: table_defs)
  have s: "\<forall>s \<in> set (Timeseries ?R). sorted_wrt (<) (map TimestampMs (Exemplars s))"
    by (simp add: table_defs)
  have s3: "sorted_wrt (<) (map TimestampMs [exemplar3 0, exemplar4 0])"
    by (simp add: table_defs)
  have s1: "sorted_wrt (<) (map TimestampMs [exemplar1 0, exemplar2 0])"
    by (simp add: table_defs)
  from merge_idempotent [OF d s] have
    "set (Timeseries (mergeExemplarQueryResponses (\<lambda>ls. ls) [?R, ?R])) = set (Timeseries ?R)
     \<and> length (Timeseries (mergeExemplarQueryResponses (\<lambda>ls. ls) [?R, ?R]))
         = length (Timeseries ?R)" .
  with d s3 s1 show ?thesis by simp
qed

text \<open>
  C5, as the claim states it, fails on the repository's own test. The sixth case of
  \<^verbatim>\<open>TestMergeExemplars\<close> (disjoint exemplars on two different series) is not marked
  \<^verbatim>\<open>nonReversible\<close>, so the test also calls the merge on \<^verbatim>\<open>[rB, rA]\<close> and requires the
  same \<^verbatim>\<open>expected\<close> output, \<open>labels1\<close> before \<open>labels2\<close>; the LabelSet first
  encountered in \<^verbatim>\<open>[rB, rA]\<close> is \<open>labels2\<close>. The output that the test requires is not in
  first-encountered order.
\<close>

theorem test_order_counterexample:
  "nonReversible (testCases 0 ! 5) = False
   \<and> \<not> firstEncounteredOrder (\<lambda>ls. ls) [rB (testCases 0 ! 5), rA (testCases 0 ! 5)]
         (expected (testCases 0 ! 5))"
  by (simp add: firstEncounteredOrder_def allSeries_def table_defs)

text \<open>
  The algorithm of the spec emits the series in first-encountered order (\<open>keys_merge\<close>),
  so it does not give what the test requires for that call, whatever the time of the test:
  it gives the two series in the other order.
\<close>

lemma merge_order_of_test:
  "Timeseries (mergeExemplarQueryResponses (\<lambda>ls. ls)
       [rB (testCases now ! 5), rA (testCases now ! 5)])
     = rev (expected (testCases now ! 5))"
  by (simp add: merge_defs table_defs)

text \<open>
  C5 (amended): for every input list of responses, each LabelSet that occurs in at least
  one input response appears exactly once in the merged output, and the output holds no
  other LabelSet.
\<close>

theorem merge_each_LabelSet_once:
  "distinct (map (\<lambda>s. fp (Labels s)) (Timeseries (mergeExemplarQueryResponses fp results)))
   \<and> set (map (\<lambda>s. fp (Labels s)) (Timeseries (mergeExemplarQueryResponses fp results)))
       = set (map (\<lambda>s. fp (Labels s)) (allSeries results))"
  by (simp only: keys_merge distinct_firstSeen set_firstSeen simp_thms)

text \<open>
  C6: when every input series of a fingerprint \<open>k\<close> has an empty exemplar sequence, the
  first of them is a series of the merged output, with its empty exemplar sequence: the
  merge does not prune it.
\<close>

theorem merge_keeps_empty_series:
  assumes first: "find (\<lambda>s. fp (Labels s) = k) (allSeries results) = Some s0"
    and empty: "\<forall>s \<in> set (allSeries results). fp (Labels s) = k \<longrightarrow> Exemplars s = []"
  shows "s0 \<in> set (Timeseries (mergeExemplarQueryResponses fp results)) \<and> Exemplars s0 = []"
proof -
  let ?accs = "accumulate fp results"
  from first have s0: "s0 \<in> set (allSeries results)" "fp (Labels s0) = k"
    by (auto simp: find_Some_iff)
  with empty have e0: "Exemplars s0 = []" by blast
  from labels_accumulate [of fp results k] first
  obtain a where a: "map_of ?accs k = Some a" "accLabels a = Labels s0"
    by auto
  have wk: "wellKeyed fp ?accs" by (rule wellKeyed_accumulate)
  from wellKeyed_lookup [OF wk a(1)] have keyed: "keyedByTimestamp (byTimestamp a)" by simp
  have "byTimestamp a = []"
  proof (cases "byTimestamp a")
    case Nil
    then show ?thesis .
  next
    case (Cons p m)
    then have "map_of (byTimestamp a) (fst p) = Some (snd p)" by simp
    then have "lookupTs ?accs k (fst p) = Some (snd p)"
      using a(1) by (simp add: lookupTs_def)
    moreover have "exemplarAt fp (allSeries results) k (fst p) = None"
      by (rule exemplarAt_no_exemplars [OF empty])
    ultimately show ?thesis by (simp add: lookupTs_accumulate)
  qed
  then have "emitSeries a = s0"
    using a(2) e0 by (simp add: emitSeries_def)
  moreover have "(k, a) \<in> set ?accs" using a(1) by (rule map_of_SomeD)
  ultimately have "s0 \<in> set (Timeseries (mergeExemplarQueryResponses fp results))"
    by (force simp: mergeExemplarQueryResponses_def)
  with e0 show ?thesis by simp
qed

theorem merge_keeps_empty_series_witness:
  "find (\<lambda>s. (\<lambda>ls. ls) (Labels s) = labels1)
       (allSeries [rA (testCases 0 ! 0), rB (testCases 0 ! 0)])
     = Some \<lparr>Labels = labels1, Exemplars = []\<rparr>
   \<and> \<lparr>Labels = labels1, Exemplars = []\<rparr>
       \<in> set (Timeseries (mergeExemplarQueryResponses (\<lambda>ls. ls)
            [rA (testCases 0 ! 0), rB (testCases 0 ! 0)]))"
proof -
  have f: "find (\<lambda>s. (\<lambda>ls. ls) (Labels s) = labels1)
       (allSeries [rA (testCases 0 ! 0), rB (testCases 0 ! 0)])
     = Some \<lparr>Labels = labels1, Exemplars = []\<rparr>"
    by (simp add: allSeries_def table_defs)
  have e: "\<forall>s \<in> set (allSeries [rA (testCases 0 ! 0), rB (testCases 0 ! 0)]).
      (\<lambda>ls. ls) (Labels s) = labels1 \<longrightarrow> Exemplars s = []"
    by (simp add: allSeries_def table_defs)
  from merge_keeps_empty_series [OF f e] f show ?thesis by simp
qed

end
